theory Spec2Isabelle
  imports Main
begin

section \<open>The logging context of logger.c\<close>

text \<open>
  A shallow embedding of \<^verbatim>\<open>src/logger.c\<close> and \<^verbatim>\<open>src/logger.h\<close>.

  \<^item> C \<^verbatim>\<open>int\<close> and \<^verbatim>\<open>time_t\<close> values are \<open>int\<close>: the code only compares
    them and prints them, it never computes with them.
  \<^item> A \<^verbatim>\<open>char *\<close> is a \<open>string option\<close>, \<open>None\<close> being the null pointer; a
    function pointer is an \<open>option\<close> of a HOL function, \<open>None\<close> being null.
  \<^item> The static variables \<^verbatim>\<open>Logger\<close> and \<^verbatim>\<open>logger_factory_file_file\<close> are fields
    of the record \<open>program\<close>, passed in and returned.
  \<^item> What the C library is asked to do is appended to a trace of events; what it
    answers (whether a file opens, the time, the text a format string expands to) is
    read from the record \<open>environment\<close>.
  \<^item> Undefined behaviour that the code can reach (a call through a null function
    pointer, \<^verbatim>\<open>fprintf\<close> with a null stream or format or with a conversion
    specification that has no argument, a write past a local array) is a \<open>fault\<close>,
    returned as \<open>Inl\<close>.
\<close>

type_synonym time_t = int

text \<open>\<^verbatim>\<open>#define LOGGER_MESSAGE_BUFFER 2048\<close> (logger.h, line 67).\<close>

definition LOGGER_MESSAGE_BUFFER :: nat where
  "LOGGER_MESSAGE_BUFFER = 2048"

text \<open>The \<^verbatim>\<open>enum\<close> of logger.h, lines 43-52 (the branch without syslog).\<close>

definition LOGGER_EMERGENCY :: int where "LOGGER_EMERGENCY = 0"
definition LOGGER_ALERT :: int where "LOGGER_ALERT = 1"
definition LOGGER_CRITICAL :: int where "LOGGER_CRITICAL = 2"
definition LOGGER_ERROR :: int where "LOGGER_ERROR = 3"
definition LOGGER_WARNING :: int where "LOGGER_WARNING = 4"
definition LOGGER_NOTICE :: int where "LOGGER_NOTICE = 5"
definition LOGGER_INFO :: int where "LOGGER_INFO = 6"
definition LOGGER_DEBUG :: int where "LOGGER_DEBUG = 7"

text \<open>
  A \<^verbatim>\<open>FILE *\<close>: the two standard streams the code names, and the stream that
  \<^verbatim>\<open>fopen\<close> returned for a path. The \<^verbatim>\<open>void *\<close> user object of the context points
  to a stream or to some other user data.
\<close>

datatype stream = Stdout | Stderr | File string

datatype object = Stream stream | User_data nat

text \<open>The variadic arguments of \<^verbatim>\<open>logger_log\<close>.\<close>

datatype arg = Arg_string string | Arg_int int

text \<open>
  The calls into the C library that have an effect outside the program.
  \<open>Fprintf s text\<close> is a call of \<^verbatim>\<open>fprintf\<close> that wrote the characters \<open>text\<close> to the
  stream \<open>s\<close>. \<open>Fopen path ok\<close> is \<^verbatim>\<open>fopen(path, "w")\<close> and
  whether it returned a stream; \<open>Atexit ok\<close> is \<^verbatim>\<open>atexit(logger_factory_file_exit)\<close>
  and whether it registered the handler.
\<close>

datatype event =
    Fopen string bool
  | Fflush stream
  | Fclose stream
  | Fprintf stream string
  | Perror string
  | Atexit bool

record environment =
  trace :: "event list"
  clock :: time_t
  can_open :: "string \<Rightarrow> bool"
  atexit_ok :: bool
  format :: "string \<Rightarrow> arg list \<Rightarrow> string option"
  strftime_c :: "time_t \<Rightarrow> string"

text \<open>
  \<open>clock\<close> is what \<^verbatim>\<open>time(NULL)\<close> returns, \<open>can_open\<close> the paths \<^verbatim>\<open>fopen\<close> can
  open for writing, \<open>atexit_ok\<close> whether \<^verbatim>\<open>atexit\<close> succeeds, \<open>strftime_c t\<close> the
  text of \<^verbatim>\<open>strftime(.., "%c", localtime(&t))\<close>, and \<open>format f args\<close> the complete text
  that the \<^verbatim>\<open>printf\<close> family produces for the format \<open>f\<close> and the arguments
  \<open>args\<close>, \<open>None\<close> when it reports an output error (a negative return value).
\<close>

datatype fault = Null_function_call | Bad_stdio_argument | Buffer_overrun

text \<open>logger.h, lines 55-56: the two callback types. A callback works on the
  environment and either returns or faults.\<close>

type_synonym logger_push_log =
  "object option \<Rightarrow> string option \<Rightarrow> environment \<Rightarrow> fault + (int \<times> environment)"

type_synonym logger_transform =
  "time_t \<Rightarrow> int \<Rightarrow> string option \<Rightarrow> int \<Rightarrow> string option \<Rightarrow> environment
     \<Rightarrow> fault + (string option \<times> environment)"

text \<open>logger.c, lines 14-20.\<close>

record logging_context =
  log_level :: int
  output_object :: "object option"
  output_function :: "logger_push_log option"
  transform_function :: "logger_transform option"
  is_active :: bool

text \<open>
  The calls that \<^verbatim>\<open>logger_log\<close> makes through the two function pointers of the
  context, with the arguments passed. The list is kept beside the context, where no
  callback can reach it.
\<close>

datatype call =
    Transform_call time_t int "string option" int "string option"
  | Push_call "object option" "string option"

record program =
  Logger :: logging_context
  logger_factory_file_file :: "stream option"
  calls :: "call list"
  env :: environment

text \<open>\<^verbatim>\<open>static logging_context Logger = {0};\<close> (logger.c, line 35).\<close>

definition Logger_zero :: logging_context where
  "Logger_zero = \<lparr>log_level = 0, output_object = None, output_function = None,
     transform_function = None, is_active = False\<rparr>"

definition emit :: "event \<Rightarrow> environment \<Rightarrow> environment" where
  "emit e w = w\<lparr>trace := trace w @ [e]\<rparr>"

subsection \<open>The C library, as far as the code relies on it\<close>

text \<open>
  \<^verbatim>\<open>vsnprintf(buf, n, ...)\<close> and \<^verbatim>\<open>snprintf(buf, n, ...)\<close> on a zeroed buffer, given
  the complete text \<open>out\<close> of the expansion: at most \<open>n - 1\<close> characters are stored,
  followed by the terminator, and the length of the complete text is returned
  (ISO C99, 7.19.6.5 and 7.19.6.12). On an output error the return value is negative.
\<close>

definition vsnprintf :: "nat \<Rightarrow> string option \<Rightarrow> string \<times> int" where
  "vsnprintf n out =
     (case out of
        None \<Rightarrow> ([], - 1)
      | Some s \<Rightarrow> (take (n - 1) s, int (length s)))"

text \<open>The conversions \<^verbatim>\<open>%d\<close>, \<^verbatim>\<open>%i\<close> and \<^verbatim>\<open>%ld\<close>: a number in decimal.\<close>

definition digit_chars :: string where
  "digit_chars = ''0123456789''"

fun dec_nat :: "nat \<Rightarrow> string" where
  "dec_nat n =
     (if n < 10 then [digit_chars ! n]
      else dec_nat (n div 10) @ [digit_chars ! (n mod 10)])"

declare dec_nat.simps [simp del]

definition decimal :: "int \<Rightarrow> string" where
  "decimal i = (if i < 0 then CHR ''-'' # dec_nat (nat (- i)) else dec_nat (nat i))"

text \<open>The conversion \<^verbatim>\<open>%-10s\<close>: left-justified in a field of ten characters.\<close>

definition left_justify :: "nat \<Rightarrow> string \<Rightarrow> string" where
  "left_justify width s = s @ replicate (width - length s) CHR '' ''"

definition newline :: char where
  "newline = CHR 0x0A"

text \<open>
  The text that \<^verbatim>\<open>fprintf(stream, f)\<close> writes when no argument follows the format
  \<open>f\<close>; \<open>None\<close> when the format holds a conversion specification other than \<^verbatim>\<open>%%\<close>,
  for which the behaviour is undefined.
\<close>

fun printf_no_args :: "string \<Rightarrow> string option" where
  "printf_no_args [] = Some []"
| "printf_no_args (c # cs) =
     (if c = CHR ''%'' then
        (case cs of
           [] \<Rightarrow> None
         | d # ds \<Rightarrow>
             if d = CHR ''%'' then map_option ((#) CHR ''%'') (printf_no_args ds) else None)
      else map_option ((#) c) (printf_no_args cs))"

text \<open>\<^verbatim>\<open>fopen(path, "w")\<close>.\<close>

definition fopen_w :: "string \<Rightarrow> environment \<Rightarrow> stream option \<times> environment" where
  "fopen_w path w =
     (if can_open w path then (Some (File path), emit (Fopen path True) w)
      else (None, emit (Fopen path False) w))"

subsection \<open>Setup and the setters (logger.c, lines 241-385)\<close>

definition logger_setup_context ::
  "int \<Rightarrow> object option \<Rightarrow> logger_push_log option \<Rightarrow> logger_transform option \<Rightarrow> bool
     \<Rightarrow> logging_context \<Rightarrow> int \<times> logging_context" where
  "logger_setup_context lvl output_data output_fn transform_fn active L =
     (if lvl < 0 \<or> lvl > 7 then (0, L)
      else if output_fn = None \<or> transform_fn = None then (- 1, L)
      else (1, \<lparr>log_level = lvl, output_object = output_data, output_function = output_fn,
                transform_function = transform_fn, is_active = active\<rparr>))"

definition logger_set_output_callback ::
  "logger_push_log option \<Rightarrow> logging_context \<Rightarrow> int \<times> logging_context" where
  "logger_set_output_callback new_output L =
     (if output_function L = None \<or> new_output = None then (0, L)
      else (1, L\<lparr>output_function := new_output\<rparr>))"

definition logger_set_loglevel :: "int \<Rightarrow> logging_context \<Rightarrow> int \<times> logging_context" where
  "logger_set_loglevel lvl L =
     (if lvl < 0 \<or> log_level L = lvl then (0, L)
      else (1, L\<lparr>log_level := lvl\<rparr>))"

definition logger_set_transform ::
  "logger_transform option \<Rightarrow> logging_context \<Rightarrow> int \<times> logging_context" where
  "logger_set_transform new_transform L =
     (if output_function L = None \<or> new_transform = None then (0, L)
      else (1, L\<lparr>transform_function := new_transform\<rparr>))"

definition logger_toggle :: "bool \<Rightarrow> logging_context \<Rightarrow> logging_context" where
  "logger_toggle set_active L =
     (if set_active = is_active L then L else L\<lparr>is_active := set_active\<rparr>)"

definition logger_get_status :: "logging_context \<Rightarrow> bool" where
  "logger_get_status L = is_active L"

definition logger_is_initialized :: "logging_context \<Rightarrow> bool" where
  "logger_is_initialized L =
     (if transform_function L \<noteq> None \<and> output_function L \<noteq> None
         \<and> log_level L \<ge> LOGGER_EMERGENCY \<and> log_level L \<le> LOGGER_DEBUG
      then True else False)"

subsection \<open>Dispatch (logger.c, lines 182-201)\<close>

definition logger_log ::
  "int \<Rightarrow> string option \<Rightarrow> int \<Rightarrow> string option \<Rightarrow> arg list \<Rightarrow> program \<Rightarrow> fault + program" where
  "logger_log lvl file linenumber message args p =
     (if lvl < 0 \<or> lvl > 7 \<or> message = None \<or> file = None then
        Inr (p\<lparr>env := emit (Fprintf Stderr
               (''Could not log message - empty or outside log levels'' @ [newline])) (env p)\<rparr>)
      else if lvl > log_level (Logger p) \<or> is_active (Logger p) = False then Inr p
      else
        (case vsnprintf LOGGER_MESSAGE_BUFFER (format (env p) (the message) args) of
           (message_buffer, n) \<Rightarrow>
             if n < 1 then
               Inr (p\<lparr>env := emit (Fprintf Stderr
                      (''Could not log message - pre-formatting returned 0 bytes'' @ [newline]))
                      (env p)\<rparr>)
             else
               (case transform_function (Logger p) of
                  None \<Rightarrow> Inl Null_function_call
                | Some transform \<Rightarrow>
                    (case transform (clock (env p)) lvl file linenumber (Some message_buffer)
                            (env p) of
                       Inl f \<Rightarrow> Inl f
                     | Inr (transformed, w1) \<Rightarrow>
                         (case output_function (Logger p) of
                            None \<Rightarrow> Inl Null_function_call
                          | Some push \<Rightarrow>
                              (case push (output_object (Logger p)) transformed w1 of
                                 Inl f \<Rightarrow> Inl f
                               | Inr (status, w2) \<Rightarrow>
                                   Inr (p\<lparr>calls := calls p @
                                            [Transform_call (clock (env p)) lvl file linenumber
                                               (Some message_buffer),
                                             Push_call (output_object (Logger p)) transformed],
                                          env := (if status < 1 then
                                                    emit (Fprintf Stderr
                                                      (''Could not log message - push function failed''
                                                         @ [newline])) w2
                                                  else w2)\<rparr>)))))))"

subsection \<open>The preset callbacks and factories (logger.c, lines 43-152)\<close>

definition console_log_level_mapping :: "string list" where
  "console_log_level_mapping =
     [''EMERGENCY'', ''ALERT'', ''CRITICAL'', ''ERROR'', ''WARNING'', ''NOTICE'', ''INFO'',
      ''DEBUG'']"

definition csv_log_level_mapping :: "string list" where
  "csv_log_level_mapping =
     [''emergency'', ''alert'', ''critical'', ''error'', ''warning'', ''notice'', ''info'',
      ''debug'']"

text \<open>
  \<^verbatim>\<open>strftime\<close> returns the number of characters it stored, or 0 when the text and
  its terminator do not fit. The following \<^verbatim>\<open>snprintf\<close> writes at
  \<^verbatim>\<open>tmp_buffer + offset\<close> with the size of the whole array as its limit, so it can
  write past the end of the array.
\<close>

definition logger_factory_console_transform :: logger_transform where
  "logger_factory_console_transform timestamp lvl file filenumber message w =
     (if lvl < LOGGER_EMERGENCY \<or> lvl > LOGGER_DEBUG \<or> message = None \<or> file = None then
        Inr (None, emit (Fprintf Stderr ''Could not transform message, invalid parameters'') w)
      else
        (let offset = (if length (strftime_c w timestamp) < LOGGER_MESSAGE_BUFFER
                       then length (strftime_c w timestamp) else 0)
         in if offset < 1 then
              Inr (None, emit (Fprintf Stderr (''Could not write time to buffer'' @ [newline])) w)
            else
              (case vsnprintf LOGGER_MESSAGE_BUFFER
                      (Some ('' '' @ left_justify 10 (console_log_level_mapping ! nat lvl) @ '' ''
                             @ the file @ '':'' @ decimal filenumber @ '' - '' @ the message
                             @ [newline])) of
                 (rest, n) \<Rightarrow>
                   if offset + length rest + 1 > LOGGER_MESSAGE_BUFFER then Inl Buffer_overrun
                   else if n < 1 then
                     Inr (None, emit (Fprintf Stderr
                            ''Could not amalgamate Message - sprintf returned 0 bytes'') w)
                   else Inr (Some (strftime_c w timestamp @ rest), w))))"

text \<open>
  Line 77 is \<^verbatim>\<open>fprintf((FILE *)custom_object, message)\<close>: the message is the format, and
  there is no further argument. \<^verbatim>\<open>fprintf\<close> then writes the message with every \<^verbatim>\<open>%%\<close>
  replaced by one percent sign; any other conversion specification asks for an argument
  that was not passed, and a percent sign at the end is no conversion specification at
  all: in both cases the behaviour is undefined (ISO C99, 7.19.6.1). The return value
  of \<^verbatim>\<open>fprintf\<close> is not looked at.
\<close>

definition logger_factory_console_output :: logger_push_log where
  "logger_factory_console_output custom_object message w =
     (case custom_object of
        Some (Stream s) \<Rightarrow>
          (case message of
             None \<Rightarrow> Inl Bad_stdio_argument
           | Some m \<Rightarrow>
               (case printf_no_args m of
                  None \<Rightarrow> Inl Bad_stdio_argument
                | Some text \<Rightarrow> Inr (1, emit (Fprintf s text) w)))
      | _ \<Rightarrow> Inl Bad_stdio_argument)"

definition logger_factory_console :: "int \<Rightarrow> program \<Rightarrow> int \<times> program" where
  "logger_factory_console lvl p =
     (case logger_setup_context lvl (Some (Stream Stdout)) (Some logger_factory_console_output)
             (Some logger_factory_console_transform) True (Logger p) of
        (ret_code, L) \<Rightarrow> (ret_code, p\<lparr>Logger := L\<rparr>))"

text \<open>
  \<^verbatim>\<open>logger_factory_file\<close> flushes and closes the stream of an earlier call, opens the
  new one, registers the exit handler and sets the context up. The calls are recorded as
  they are made; whether the earlier stream was still open is not tracked.
\<close>

definition logger_factory_file :: "int \<Rightarrow> string option \<Rightarrow> program \<Rightarrow> int \<times> program" where
  "logger_factory_file lvl file_path p =
     (if file_path = None \<or> lvl < LOGGER_EMERGENCY \<or> lvl > LOGGER_DEBUG then (- 1, p)
      else
        (case fopen_w (the file_path)
                (case logger_factory_file_file p of
                   None \<Rightarrow> env p
                 | Some old \<Rightarrow> emit (Fclose old) (emit (Fflush old) (env p))) of
           (None, w) \<Rightarrow>
             (- 2, p\<lparr>logger_factory_file_file := None,
                     env := emit (Perror ''Could not open File for factory setup'') w\<rparr>)
         | (Some f, w) \<Rightarrow>
             if atexit_ok w = False then
               (- 3, p\<lparr>logger_factory_file_file := Some f,
                       env := emit (Fclose f)
                                (emit (Fprintf Stderr
                                         (''Could not setup atexit handler'' @ [newline]))
                                   (emit (Atexit False) w))\<rparr>)
             else
               (case logger_setup_context lvl (Some (Stream f))
                       (Some logger_factory_console_output)
                       (Some logger_factory_console_transform) True (Logger p) of
                  (ret_code, L) \<Rightarrow>
                    (ret_code, p\<lparr>Logger := L, logger_factory_file_file := Some f,
                                  env := emit (Atexit True) w\<rparr>))))"

definition logger_factory_csv_transform :: logger_transform where
  "logger_factory_csv_transform timestamp lvl file filenumber message w =
     (if lvl < LOGGER_EMERGENCY \<or> lvl > LOGGER_DEBUG \<or> message = None \<or> file = None then
        Inr (None, emit (Fprintf Stderr ''Could not transform message, invalid parameters'') w)
      else
        (case vsnprintf LOGGER_MESSAGE_BUFFER
                (Some (decimal timestamp @ '','' @ csv_log_level_mapping ! nat lvl @ '',''
                       @ the file @ '','' @ decimal filenumber @ '','' @ the message
                       @ [newline])) of
           (tmp_buffer, n) \<Rightarrow>
             if n < 1 then
               Inr (None, emit (Fprintf Stderr
                      ''Could not amalgamate Message - sprintf returned 0 bytes'') w)
             else Inr (Some tmp_buffer, w)))"

definition csv_header :: string where
  "csv_header = ''timestamp,priority,filename,linenumber,message'' @ [newline]"

definition logger_factory_csv ::
  "int \<Rightarrow> string option \<Rightarrow> program \<Rightarrow> fault + (int \<times> program)" where
  "logger_factory_csv lvl file_path p =
     (case logger_factory_file lvl file_path p of
        (ret_code, p1) \<Rightarrow>
          if ret_code \<le> 0 then Inr (ret_code, p1)
          else
            (case logger_set_transform (Some logger_factory_csv_transform) (Logger p1) of
               (ignored, L) \<Rightarrow>
                 (case logger_factory_file_file p1 of
                    None \<Rightarrow> Inl Bad_stdio_argument
                  | Some f \<Rightarrow>
                      Inr (ret_code, p1\<lparr>Logger := L, env := emit (Fprintf f csv_header) (env p1)\<rparr>))))"

subsection \<open>Sequences of log calls, and what a stream has received\<close>

text \<open>
  A program makes one log call after another. A request is the time at which the call
  is made and the arguments of \<^verbatim>\<open>logger_log\<close>; a fault ends the run.
\<close>

type_synonym log_request = "time_t \<times> int \<times> string option \<times> int \<times> string option \<times> arg list"

fun logger_log_all :: "log_request list \<Rightarrow> program \<Rightarrow> fault + program" where
  "logger_log_all [] p = Inr p"
| "logger_log_all ((t, lvl, file, linenumber, message, args) # rs) p =
     (case logger_log lvl file linenumber message args (p\<lparr>env := (env p)\<lparr>clock := t\<rparr>\<rparr>) of
        Inl f \<Rightarrow> Inl f
      | Inr p' \<Rightarrow> logger_log_all rs p')"

text \<open>
  The texts a stream has been sent since it was last opened: \<^verbatim>\<open>fopen(path, "w")\<close>
  empties the file, \<^verbatim>\<open>fprintf\<close> appends to it. There is one entry for each call of
  \<^verbatim>\<open>fprintf\<close>.
\<close>

definition record_event :: "stream \<Rightarrow> string list \<Rightarrow> event \<Rightarrow> string list" where
  "record_event s acc e =
     (case e of
        Fopen path ok \<Rightarrow> (if ok \<and> File path = s then [] else acc)
      | Fprintf s' text \<Rightarrow> (if s' = s then acc @ [text] else acc)
      | _ \<Rightarrow> acc)"

definition written :: "stream \<Rightarrow> event list \<Rightarrow> string list" where
  "written s evs = foldl (record_event s) [] evs"

text \<open>The characters a stream holds: the texts it has been sent, one after the other.\<close>

definition contents :: "stream \<Rightarrow> event list \<Rightarrow> string" where
  "contents s evs = concat (written s evs)"

text \<open>
  The lines of a text: the characters between one line terminator and the next. The
  scan keeps the finished lines and the line it is in; the last line of the result is
  the one that no terminator has ended yet.
\<close>

definition line_step :: "string list \<times> string \<Rightarrow> char \<Rightarrow> string list \<times> string" where
  "line_step st c =
     (case st of (ended, cur) \<Rightarrow> if c = newline then (ended @ [cur], []) else (ended, cur @ [c]))"

definition lines_of :: "string \<Rightarrow> string list" where
  "lines_of s = (case foldl line_step ([], []) s of (ended, cur) \<Rightarrow> ended @ [cur])"

text \<open>The header record of the tabular preset without its line terminator.\<close>

definition header_line :: string where
  "header_line = ''timestamp,priority,filename,linenumber,message''"

text \<open>A line that is empty or starts with another character than the header does.\<close>

definition plain_line :: "string \<Rightarrow> bool" where
  "plain_line l = (l = [] \<or> hd l \<noteq> CHR ''t'')"

text \<open>A state of the scan of lines in which every line is plain.\<close>

definition plain_lines :: "string list \<times> string \<Rightarrow> bool" where
  "plain_lines st = ((\<forall>l \<in> set (fst st). plain_line l) \<and> plain_line (snd st))"

text \<open>
  A request is free of a character when neither its file name nor the text its format
  expands to holds the character. \<open>fm\<close> is the expansion of formats.
\<close>

definition request_free_of ::
  "char \<Rightarrow> (string \<Rightarrow> arg list \<Rightarrow> string option) \<Rightarrow> log_request \<Rightarrow> bool" where
  "request_free_of c fm rq =
     (case rq of
        (t, lvl, file, linenumber, message, args) \<Rightarrow>
          (case file of None \<Rightarrow> True | Some name \<Rightarrow> c \<notin> set name)
          \<and> (case message of
                None \<Rightarrow> True
              | Some f \<Rightarrow> (case fm f args of None \<Rightarrow> True | Some s \<Rightarrow> c \<notin> set s)))"

subsection \<open>Concrete callbacks and a concrete environment\<close>

text \<open>
  A sink that accepts every message, a transformer that passes the message on
  unchanged, and a transformer that always fails (returns null).
\<close>

definition accepting_push :: logger_push_log where
  "accepting_push custom_object message w = Inr (1, w)"

definition identity_transform :: logger_transform where
  "identity_transform timestamp lvl file filenumber message w = Inr (message, w)"

definition failing_transform :: logger_transform where
  "failing_transform timestamp lvl file filenumber message w = Inr (None, w)"

text \<open>
  A format without a conversion specification expands to itself; this environment
  answers for no other format.
\<close>

definition plain_format :: "string \<Rightarrow> arg list \<Rightarrow> string option" where
  "plain_format f args = (if CHR ''%'' \<in> set f then None else Some f)"

definition environment_example :: environment where
  "environment_example =
     \<lparr>trace = [], clock = 1633035745, can_open = (\<lambda>path. True), atexit_ok = True,
      format = plain_format, strftime_c = (\<lambda>t. ''Thu Sep 30 23:02:25 2021'')\<rparr>"

text \<open>The program at its start: the context is zero, no file is open.\<close>

definition program_start :: program where
  "program_start =
     \<lparr>Logger = Logger_zero, logger_factory_file_file = None, calls = [],
      env = environment_example\<rparr>"


text \<open>
  The program after a successful setup at level 7 (debug) with the accepting sink, once
  with the transformer that passes the message on and once with the one that fails.
\<close>

definition program_ready :: program where
  "program_ready =
     program_start\<lparr>Logger := snd (logger_setup_context 7 None (Some accepting_push)
        (Some identity_transform) True Logger_zero)\<rparr>"

definition program_failing :: program where
  "program_failing =
     program_start\<lparr>Logger := snd (logger_setup_context 7 None (Some accepting_push)
        (Some failing_transform) True Logger_zero)\<rparr>"

text \<open>
  The program after \<^verbatim>\<open>logger_factory_console(LOGGER_WARNING)\<close>, and the program after
  \<^verbatim>\<open>logger_factory_csv(LOGGER_DEBUG, "log.csv")\<close>, each called at the start.
\<close>

definition program_console :: program where
  "program_console = snd (logger_factory_console LOGGER_WARNING program_start)"

definition program_csv :: program where
  "program_csv =
     \<lparr>Logger = \<lparr>log_level = 7, output_object = Some (Stream (File ''log.csv'')),
                 output_function = Some logger_factory_console_output,
                 transform_function = Some logger_factory_csv_transform, is_active = True\<rparr>,
      logger_factory_file_file = Some (File ''log.csv''), calls = [],
      env = environment_example\<lparr>trace :=
              [Fopen ''log.csv'' True, Atexit True, Fprintf (File ''log.csv'') csv_header]\<rparr>\<rparr>"

subsection \<open>Notions used to state the properties\<close>

text \<open>A write of the header record of the tabular preset, to any stream.\<close>

definition is_header_write :: "event \<Rightarrow> bool" where
  "is_header_write e = (case e of Fprintf s text \<Rightarrow> text = csv_header | _ \<Rightarrow> False)"

text \<open>The context as the tabular preset leaves it, writing to the file at \<open>path\<close>.\<close>

definition csv_configured :: "string \<Rightarrow> program \<Rightarrow> bool" where
  "csv_configured path p =
     (transform_function (Logger p) = Some logger_factory_csv_transform
      \<and> output_function (Logger p) = Some logger_factory_console_output
      \<and> output_object (Logger p) = Some (Stream (File path)))"

section \<open>Setup and setters\<close>

lemma setup_success:
  assumes "logger_setup_context T obj output_fn transform_fn act L0 = (r, L)" "0 < r"
  shows "0 \<le> T \<and> T \<le> 7 \<and> L = \<lparr>log_level = T, output_object = obj, output_function = output_fn,
           transform_function = transform_fn, is_active = act\<rparr> \<and> output_fn \<noteq> None
         \<and> transform_fn \<noteq> None"
  using assms by (auto simp: logger_setup_context_def split: if_splits)

lemma program_ready_Logger:
  "Logger program_ready = \<lparr>log_level = 7, output_object = None,
     output_function = Some accepting_push, transform_function = Some identity_transform,
     is_active = True\<rparr>"
  by (simp add: program_ready_def program_start_def logger_setup_context_def)

lemma program_ready_rest:
  "env program_ready = environment_example" "calls program_ready = []"
  "logger_factory_file_file program_ready = None"
  by (simp_all add: program_ready_def program_start_def)

text \<open>
  C3. A call of \<^verbatim>\<open>logger_setup_context\<close> with a level outside 0..7, or with a null
  output function, or with a null transform function, returns a status that is not
  positive and leaves every field of the context as it was.
\<close>

theorem setup_rejects_invalid:
  assumes "lvl < 0 \<or> 7 < lvl \<or> output_fn = None \<or> transform_fn = None"
  shows "fst (logger_setup_context lvl output_data output_fn transform_fn active L) \<le> 0
         \<and> snd (logger_setup_context lvl output_data output_fn transform_fn active L) = L"
  using assms by (auto simp: logger_setup_context_def)

theorem setup_rejects_invalid_witness:
  "((8::int) < 0 \<or> (7::int) < 8 \<or> Some accepting_push = None \<or> Some identity_transform = None)
   \<and> fst (logger_setup_context 8 None (Some accepting_push) (Some identity_transform) True
            Logger_zero) \<le> 0
   \<and> snd (logger_setup_context 8 None (Some accepting_push) (Some identity_transform) True
            Logger_zero) = Logger_zero"
  using setup_rejects_invalid [of 8 "Some accepting_push" "Some identity_transform" None True
      Logger_zero]
  by simp

text \<open>
  C8. For every context and every boolean \<open>b\<close>: after \<^verbatim>\<open>logger_toggle(b)\<close>,
  \<^verbatim>\<open>logger_get_status()\<close> returns \<open>b\<close> and no field but the flag has changed; and a
  toggle to the current value of the flag leaves the whole context unchanged.
\<close>

theorem toggle_sets_flag_and_is_idempotent:
  "logger_get_status (logger_toggle b L) = b
   \<and> logger_toggle b L = L\<lparr>is_active := b\<rparr>
   \<and> logger_toggle (is_active L) L = L
   \<and> logger_toggle b (logger_toggle b L) = logger_toggle b L"
  by (simp add: logger_toggle_def logger_get_status_def)

text \<open>
  The setters and the validity of the context. Three of the four keep a valid context
  valid; \<^verbatim>\<open>logger_set_loglevel\<close> does so only for a level up to 7, because it tests
  the lower bound of the range and not the upper one.
\<close>

lemma set_output_callback_keeps_initialized:
  "logger_is_initialized L \<Longrightarrow> logger_set_output_callback new_output L = (r, L') \<Longrightarrow> 0 < r
     \<Longrightarrow> logger_is_initialized L'"
  by (auto simp: logger_is_initialized_def logger_set_output_callback_def split: if_splits)

lemma set_transform_keeps_initialized:
  "logger_is_initialized L \<Longrightarrow> logger_set_transform new_transform L = (r, L') \<Longrightarrow> 0 < r
     \<Longrightarrow> logger_is_initialized L'"
  by (auto simp: logger_is_initialized_def logger_set_transform_def split: if_splits)

lemma toggle_keeps_initialized:
  "logger_is_initialized L \<Longrightarrow> logger_is_initialized (logger_toggle b L)"
  by (auto simp: logger_is_initialized_def logger_toggle_def split: if_splits)

lemma set_loglevel_keeps_initialized_in_range:
  "logger_is_initialized L \<Longrightarrow> logger_set_loglevel lvl L = (r, L') \<Longrightarrow> 0 < r \<Longrightarrow> lvl \<le> 7
     \<Longrightarrow> logger_is_initialized L'"
  by (auto simp: logger_is_initialized_def logger_set_loglevel_def LOGGER_EMERGENCY_def
      LOGGER_DEBUG_def split: if_splits)

text \<open>
  C4. Claimed: a setter that reports success on a valid context leaves it valid. The
  code does not do that: after a setup at level 7, \<^verbatim>\<open>logger_set_loglevel(8)\<close> returns 1
  and stores 8, and \<^verbatim>\<open>logger_is_initialized()\<close> is false afterwards.
\<close>

theorem set_loglevel_leaves_valid_range:
  "logger_is_initialized (Logger program_ready) = True
   \<and> logger_set_loglevel 8 (Logger program_ready) = (1, (Logger program_ready)\<lparr>log_level := 8\<rparr>)
   \<and> logger_is_initialized ((Logger program_ready)\<lparr>log_level := 8\<rparr>) = False"
  by (simp add: program_ready_Logger logger_is_initialized_def logger_set_loglevel_def
      LOGGER_EMERGENCY_def LOGGER_DEBUG_def)

text \<open>
  C6, as the code has it. On a context whose output function is null, as it is before
  the first successful setup, \<^verbatim>\<open>logger_set_output_callback\<close> and
  \<^verbatim>\<open>logger_set_transform\<close> return 0 and change nothing. \<^verbatim>\<open>logger_toggle\<close> returns no
  status and does not look at the callbacks: it sets the flag and nothing else.
\<close>

theorem setters_before_setup:
  assumes "output_function L = None"
  shows "logger_set_output_callback new_output L = (0, L)
         \<and> logger_set_transform new_transform L = (0, L)
         \<and> logger_toggle b L = L\<lparr>is_active := b\<rparr>"
  using assms
  by (simp add: logger_set_output_callback_def logger_set_transform_def logger_toggle_def)

theorem setters_before_setup_witness:
  "output_function Logger_zero = None
   \<and> logger_set_output_callback (Some accepting_push) Logger_zero = (0, Logger_zero)
   \<and> logger_set_transform (Some identity_transform) Logger_zero = (0, Logger_zero)
   \<and> logger_toggle True Logger_zero = Logger_zero\<lparr>is_active := True\<rparr>"
proof -
  have z: "output_function Logger_zero = None" by (simp add: Logger_zero_def)
  from setters_before_setup [OF z, of "Some accepting_push" "Some identity_transform" True] z
  show ?thesis by simp
qed

text \<open>
  C6 as claimed fails: on the zero context \<^verbatim>\<open>logger_toggle(true)\<close> changes the flag.
\<close>

theorem toggle_before_setup_counterexample:
  "is_active Logger_zero = False
   \<and> is_active (logger_toggle True Logger_zero) = True
   \<and> logger_toggle True Logger_zero \<noteq> Logger_zero"
proof -
  have "is_active Logger_zero = False" "is_active (logger_toggle True Logger_zero) = True"
    by (simp_all add: Logger_zero_def logger_toggle_def)
  then show ?thesis by metis
qed

text \<open>
  \<^verbatim>\<open>logger_set_loglevel\<close> does not look at the callbacks either: on the zero context
  it stores a positive level and returns 1.
\<close>

lemma set_loglevel_before_setup:
  "logger_set_loglevel 5 Logger_zero = (1, Logger_zero\<lparr>log_level := 5\<rparr>)"
  by (simp add: logger_set_loglevel_def Logger_zero_def)

section \<open>Dispatch\<close>

text \<open>The four ways through \<^verbatim>\<open>logger_log\<close>.\<close>

lemma logger_log_dispatch:
  assumes "0 \<le> lvl" "lvl \<le> 7" "lvl \<le> log_level (Logger p)" "is_active (Logger p)"
    and "format (env p) fmt args = Some s" "s \<noteq> []"
    and "transform_function (Logger p) = Some tf" "output_function (Logger p) = Some pf"
    and "tf (clock (env p)) lvl (Some file) n (Some (take (LOGGER_MESSAGE_BUFFER - 1) s)) (env p)
           = Inr (m, w1)"
    and "pf (output_object (Logger p)) m w1 = Inr (r, w2)"
  shows "logger_log lvl (Some file) n (Some fmt) args p =
           Inr (p\<lparr>calls := calls p @
                     [Transform_call (clock (env p)) lvl (Some file) n
                        (Some (take (LOGGER_MESSAGE_BUFFER - 1) s)),
                      Push_call (output_object (Logger p)) m],
                   env := (if r < 1 then
                             emit (Fprintf Stderr
                               (''Could not log message - push function failed'' @ [newline])) w2
                           else w2)\<rparr>)"
proof -
  have len: "\<not> int (length s) < 1" using assms(6) by (cases s) auto
  show ?thesis
    using assms len
    by (simp add: logger_log_def vsnprintf_def)
qed

lemma logger_log_filtered:
  assumes "0 \<le> lvl" "lvl \<le> 7" "log_level (Logger p) < lvl \<or> is_active (Logger p) = False"
  shows "logger_log lvl (Some file) n (Some fmt) args p = Inr p"
  using assms by (auto simp add: logger_log_def)

lemma logger_log_empty:
  assumes "0 \<le> lvl" "lvl \<le> 7" "lvl \<le> log_level (Logger p)" "is_active (Logger p)"
    and "format (env p) fmt args = Some [] \<or> format (env p) fmt args = None"
  shows "logger_log lvl (Some file) n (Some fmt) args p =
           Inr (p\<lparr>env := emit (Fprintf Stderr
                      (''Could not log message - pre-formatting returned 0 bytes'' @ [newline]))
                      (env p)\<rparr>)"
  using assms by (auto simp add: logger_log_def vsnprintf_def)

lemma logger_log_invalid:
  assumes "lvl < 0 \<or> 7 < lvl \<or> file = None \<or> message = None"
  shows "logger_log lvl file n message args p =
           Inr (p\<lparr>env := emit (Fprintf Stderr
                      (''Could not log message - empty or outside log levels'' @ [newline]))
                      (env p)\<rparr>)"
  using assms by (auto simp add: logger_log_def)

lemma written_snoc: "written s (evs @ [e]) = record_event s (written s evs) e"
  by (simp add: written_def)

lemma written_emit:
  "written s (trace (emit e w)) = record_event s (written s (trace w)) e"
  by (simp add: emit_def written_snoc)

text \<open>
  C7. A log call with a level outside 0..7, or with a null file name, or with a null
  format returns to the caller, having written one line to the standard error stream.
  The context, the file of the file preset and the list of calls through the
  callbacks are as before (neither callback was invoked), and no stream but the
  standard error stream has received anything.
\<close>

theorem log_invalid_arguments:
  assumes "lvl < 0 \<or> 7 < lvl \<or> file = None \<or> message = None"
  shows "\<exists>p'. logger_log lvl file n message args p = Inr p'
           \<and> Logger p' = Logger p
           \<and> logger_factory_file_file p' = logger_factory_file_file p
           \<and> calls p' = calls p
           \<and> env p' = emit (Fprintf Stderr
                (''Could not log message - empty or outside log levels'' @ [newline])) (env p)
           \<and> (\<forall>s. s \<noteq> Stderr \<longrightarrow> written s (trace (env p')) = written s (trace (env p)))"
  using logger_log_invalid [OF assms, of n args p]
  by (simp add: written_emit record_event_def)

theorem log_invalid_arguments_witness:
  "((8::int) < 0 \<or> (7::int) < 8 \<or> Some ''main.c'' = None \<or> Some ''x'' = None)
   \<and> (\<exists>p'. logger_log 8 (Some ''main.c'') 3 (Some ''x'') [] program_ready = Inr p'
          \<and> Logger p' = Logger program_ready
          \<and> calls p' = calls program_ready
          \<and> env p' = emit (Fprintf Stderr
               (''Could not log message - empty or outside log levels'' @ [newline]))
               (env program_ready))"
  using log_invalid_arguments [of 8 "Some ''main.c''" "Some ''x''" 3 "[]" program_ready]
  by auto

text \<open>
  C10. A log call that passes the validation and the filter, and whose format expands
  to the empty text (or whose expansion fails), returns to the caller, having written
  one line to the standard error stream; neither callback is invoked.
\<close>

theorem log_empty_message_dropped:
  assumes "0 \<le> S" "S \<le> 7" "S \<le> log_level (Logger p)" "is_active (Logger p)"
    and "format (env p) fmt args = Some [] \<or> format (env p) fmt args = None"
  shows "\<exists>p'. logger_log S (Some file) n (Some fmt) args p = Inr p'
           \<and> Logger p' = Logger p
           \<and> calls p' = calls p
           \<and> env p' = emit (Fprintf Stderr
                (''Could not log message - pre-formatting returned 0 bytes'' @ [newline]))
                (env p)"
  using logger_log_empty [OF assms, of "file" n] by simp

theorem log_empty_message_dropped_witness:
  "(0::int) \<le> 4 \<and> (4::int) \<le> 7 \<and> 4 \<le> log_level (Logger program_ready)
   \<and> is_active (Logger program_ready)
   \<and> format (env program_ready) [] [] = Some []
   \<and> (\<exists>p'. logger_log 4 (Some ''main.c'') 3 (Some []) [] program_ready = Inr p'
          \<and> Logger p' = Logger program_ready
          \<and> calls p' = calls program_ready
          \<and> env p' = emit (Fprintf Stderr
               (''Could not log message - pre-formatting returned 0 bytes'' @ [newline]))
               (env program_ready))"
proof -
  have a: "4 \<le> log_level (Logger program_ready)" "is_active (Logger program_ready)"
    by (simp_all add: program_ready_Logger)
  have f: "format (env program_ready) [] [] = Some []"
    by (simp add: program_ready_rest environment_example_def plain_format_def)
  from log_empty_message_dropped [OF _ _ a disjI1 [OF f], of "''main.c''" 3] a f
  show ?thesis by simp
qed

text \<open>
  C1, as the code has it. After a successful setup with threshold \<open>T\<close> and flag
  \<open>act\<close>, a log call with a level \<open>S\<close> in 0..7, a file name and a format returns; the
  transformer and then the sink are invoked if and only if the flag is set, \<open>S \<le> T\<close>
  and the format expands to a text that is not empty. Otherwise neither is invoked, and
  when the flag is not set or \<open>T < S\<close> the whole state of the program is as before.
  Of the callbacks it is only assumed that, when the call does reach them, they return
  for the arguments of this call.
\<close>

theorem filter_law:
  assumes conf: "logger_setup_context T obj (Some pf) (Some tf) act L0 = (r, Logger p)"
    and ok: "0 < r"
    and sev: "0 \<le> S" "S \<le> 7"
    and returns: "\<And>s. act \<Longrightarrow> S \<le> T \<Longrightarrow> format (env p) fmt args = Some s \<Longrightarrow> s \<noteq> [] \<Longrightarrow>
           \<exists>m w1 st w2.
             tf (clock (env p)) S (Some file) n (Some (take (LOGGER_MESSAGE_BUFFER - 1) s)) (env p)
               = Inr (m, w1)
             \<and> pf obj m w1 = Inr (st, w2)"
  shows "\<exists>p'. logger_log S (Some file) n (Some fmt) args p = Inr p'
           \<and> ((\<exists>buf m. calls p' = calls p @
                   [Transform_call (clock (env p)) S (Some file) n (Some buf), Push_call obj m])
                \<longleftrightarrow> (act \<and> S \<le> T \<and> (\<exists>s. format (env p) fmt args = Some s \<and> s \<noteq> [])))
           \<and> (\<not> (act \<and> S \<le> T \<and> (\<exists>s. format (env p) fmt args = Some s \<and> s \<noteq> []))
                \<longrightarrow> calls p' = calls p)
           \<and> (act = False \<or> T < S \<longrightarrow> p' = p)"
proof -
  from setup_success [OF conf ok]
  have L: "log_level (Logger p) = T" "is_active (Logger p) = act"
    "output_object (Logger p) = obj" "output_function (Logger p) = Some pf"
    "transform_function (Logger p) = Some tf"
    by simp_all
  show ?thesis
  proof (cases "act \<and> S \<le> T")
    case False
    then have "log_level (Logger p) < S \<or> is_active (Logger p) = False"
      using L by auto
    from logger_log_filtered [OF sev this]
    have "logger_log S (Some file) n (Some fmt) args p = Inr p" .
    then show ?thesis using False by auto
  next
    case True
    then have pass: "S \<le> log_level (Logger p)" "is_active (Logger p)" using L by auto
    show ?thesis
    proof (cases "\<exists>s. format (env p) fmt args = Some s \<and> s \<noteq> []")
      case False
      then have "format (env p) fmt args = Some [] \<or> format (env p) fmt args = None"
        by (cases "format (env p) fmt args") auto
      from logger_log_empty [OF sev pass this]
      show ?thesis using False True by auto
    next
      case nonempty: True
      then obtain s where s: "format (env p) fmt args = Some s" "s \<noteq> []" by blast
      from returns [OF _ _ s] True
      obtain m w1 st w2 where t: "tf (clock (env p)) S (Some file) n
          (Some (take (LOGGER_MESSAGE_BUFFER - 1) s)) (env p) = Inr (m, w1)"
        and q: "pf (output_object (Logger p)) m w1 = Inr (st, w2)"
        using L(3) by auto
      from logger_log_dispatch [OF sev pass s L(5) L(4) t q]
      show ?thesis using True nonempty L(3) by auto
    qed
  qed
qed

text \<open>
  The theorem at the console preset, set up at the level of warnings: a warning is
  handed to both callbacks, a debug message changes nothing.
\<close>

theorem filter_law_witness:
  "logger_setup_context 4 (Some (Stream Stdout)) (Some logger_factory_console_output)
       (Some logger_factory_console_transform) True Logger_zero
     = (1, Logger program_console)
   \<and> (0::int) \<le> 4 \<and> (4::int) \<le> 7
   \<and> format (env program_console) ''y'' [] = Some ''y''
   \<and> (\<exists>p' buf m. logger_log 4 (Some ''main.c'') 12 (Some ''y'') [] program_console = Inr p'
          \<and> calls p' = calls program_console @
               [Transform_call (clock (env program_console)) 4 (Some ''main.c'') 12 (Some buf),
                Push_call (Some (Stream Stdout)) m])
   \<and> logger_log 7 (Some ''main.c'') 11 (Some ''x'') [] program_console = Inr program_console"
proof -
  have pc: "Logger program_console = \<lparr>log_level = 4, output_object = Some (Stream Stdout),
        output_function = Some logger_factory_console_output,
        transform_function = Some logger_factory_console_transform, is_active = True\<rparr>"
      "env program_console = environment_example"
    by (simp_all add: program_console_def logger_factory_console_def logger_setup_context_def
        LOGGER_WARNING_def program_start_def)
  have conf: "logger_setup_context 4 (Some (Stream Stdout)) (Some logger_factory_console_output)
       (Some logger_factory_console_transform) True Logger_zero = (1, Logger program_console)"
    by (simp add: pc logger_setup_context_def)
  have fm: "format (env program_console) ''y'' [] = Some ''y''"
    by (simp add: pc environment_example_def plain_format_def)
  have d12: "decimal 12 = ''12''"
    by (simp add: decimal_def dec_nat.simps digit_chars_def)
  have t: "logger_factory_console_transform (clock (env program_console)) 4 (Some ''main.c'') 12
      (Some (take (LOGGER_MESSAGE_BUFFER - 1) ''y'')) (env program_console)
      = Inr (Some (''Thu Sep 30 23:02:25 2021 WARNING    main.c:12 - y'' @ [newline]),
             env program_console)"
    by (simp add: logger_factory_console_transform_def pc environment_example_def
        LOGGER_MESSAGE_BUFFER_def LOGGER_EMERGENCY_def LOGGER_DEBUG_def vsnprintf_def
        console_log_level_mapping_def left_justify_def d12 numeral_eq_Suc)
  have q: "logger_factory_console_output (Some (Stream Stdout))
      (Some (''Thu Sep 30 23:02:25 2021 WARNING    main.c:12 - y'' @ [newline]))
      (env program_console)
      = Inr (1, emit (Fprintf Stdout (''Thu Sep 30 23:02:25 2021 WARNING    main.c:12 - y''
                                       @ [newline])) (env program_console))"
    by (simp add: logger_factory_console_output_def newline_def)
  have returns: "\<exists>m w1 st w2.
      logger_factory_console_transform (clock (env program_console)) 4 (Some ''main.c'') 12
          (Some (take (LOGGER_MESSAGE_BUFFER - 1) s)) (env program_console) = Inr (m, w1)
      \<and> logger_factory_console_output (Some (Stream Stdout)) m w1 = Inr (st, w2)"
    if "True" "(4::int) \<le> 4" "format (env program_console) ''y'' [] = Some s" "s \<noteq> []" for s
  proof -
    from that(3) fm have "s = ''y''" by simp
    with t q show ?thesis by blast
  qed
  note at_warning = filter_law [OF conf, of 4 "''y''" "[]" "''main.c''" 12]
  from at_warning [OF _ _ _ returns] fm
  have warning: "\<exists>p' buf m. logger_log 4 (Some ''main.c'') 12 (Some ''y'') [] program_console
          = Inr p'
        \<and> calls p' = calls program_console @
             [Transform_call (clock (env program_console)) 4 (Some ''main.c'') 12 (Some buf),
              Push_call (Some (Stream Stdout)) m]"
    by auto
  from filter_law [OF conf, of 7 "''x''" "[]" "''main.c''" 11]
  have debug: "logger_log 7 (Some ''main.c'') 11 (Some ''x'') [] program_console
      = Inr program_console"
    by auto
  from conf fm warning debug show ?thesis by simp
qed

text \<open>
  C1 as claimed fails for an empty message: after a successful setup with threshold 7
  and the flag set, a call at level 0 with the format \<^verbatim>\<open>""\<close> invokes no callback.
\<close>

theorem filter_law_counterexample:
  "logger_setup_context 7 None (Some accepting_push) (Some identity_transform) True Logger_zero
     = (1, Logger program_ready)
   \<and> is_active (Logger program_ready) = True
   \<and> (0::int) \<le> log_level (Logger program_ready)
   \<and> logger_log 0 (Some ''main.c'') 12 (Some []) [] program_ready =
       Inr (program_ready\<lparr>env := emit (Fprintf Stderr
              (''Could not log message - pre-formatting returned 0 bytes'' @ [newline]))
              (env program_ready)\<rparr>)
   \<and> calls (program_ready\<lparr>env := emit (Fprintf Stderr
              (''Could not log message - pre-formatting returned 0 bytes'' @ [newline]))
              (env program_ready)\<rparr>) = calls program_ready"
  by (simp add: logger_log_def program_ready_Logger program_ready_rest environment_example_def
      plain_format_def vsnprintf_def logger_setup_context_def)

text \<open>
  C2. Claimed: when the transformer returns null, the sink is not invoked. The code
  passes the result of the transformer to the sink without looking at it: with a
  transformer that returns null, the sink is called with a null message and no line is
  written to the standard error stream. The output function of the console preset hands
  its message to \<^verbatim>\<open>fprintf\<close> as the format, which is undefined for a null pointer.
\<close>

theorem null_transform_result_reaches_sink:
  "logger_setup_context 7 None (Some accepting_push) (Some failing_transform) True Logger_zero
     = (1, Logger program_failing)
   \<and> logger_log 3 (Some ''main.c'') 10 (Some ''x'') [] program_failing =
       Inr (program_failing\<lparr>calls :=
              [Transform_call 1633035745 3 (Some ''main.c'') 10 (Some ''x''),
               Push_call None None]\<rparr>)
   \<and> logger_factory_console_output (Some (Stream Stdout)) None (env program_failing)
       = Inl Bad_stdio_argument"
  by (simp add: logger_log_def program_failing_def program_start_def environment_example_def
      plain_format_def vsnprintf_def logger_setup_context_def LOGGER_MESSAGE_BUFFER_def
      failing_transform_def accepting_push_def logger_factory_console_output_def Logger_zero_def)

text \<open>
  C5, as the code has it. The buffer of 2048 characters holds the terminator, so the
  transformer receives the first 2047 characters of the expanded message: a message of
  up to 2047 characters in full, a longer one cut to 2047. In both cases the call goes
  on to the transformer and the sink and writes nothing to the standard error stream:
  the environment after the call is the one the sink returned.
\<close>

theorem truncation_boundary:
  assumes "0 \<le> S" "S \<le> 7" "S \<le> log_level (Logger p)" "is_active (Logger p)"
    and "format (env p) fmt args = Some s" "s \<noteq> []"
    and "transform_function (Logger p) = Some tf" "output_function (Logger p) = Some pf"
    and "tf (clock (env p)) S (Some file) n (Some (take (LOGGER_MESSAGE_BUFFER - 1) s)) (env p)
           = Inr (m, w1)"
    and "pf (output_object (Logger p)) m w1 = Inr (r, w2)" "0 < r"
  shows "logger_log S (Some file) n (Some fmt) args p =
           Inr (p\<lparr>calls := calls p @
                     [Transform_call (clock (env p)) S (Some file) n
                        (Some (take (LOGGER_MESSAGE_BUFFER - 1) s)),
                      Push_call (output_object (Logger p)) m],
                   env := w2\<rparr>)
         \<and> LOGGER_MESSAGE_BUFFER - 1 = 2047
         \<and> (length s \<le> 2047 \<longrightarrow> take (LOGGER_MESSAGE_BUFFER - 1) s = s)
         \<and> (2047 < length s \<longrightarrow> length (take (LOGGER_MESSAGE_BUFFER - 1) s) = 2047
               \<and> take (LOGGER_MESSAGE_BUFFER - 1) s \<noteq> s)"
proof -
  have "logger_log S (Some file) n (Some fmt) args p =
           Inr (p\<lparr>calls := calls p @
                     [Transform_call (clock (env p)) S (Some file) n
                        (Some (take (LOGGER_MESSAGE_BUFFER - 1) s)),
                      Push_call (output_object (Logger p)) m],
                   env := w2\<rparr>)"
    using logger_log_dispatch [OF assms(1-10)] assms(11) by simp
  moreover have "2047 < length s \<Longrightarrow> take 2047 s \<noteq> s"
    by (metis length_take min.absorb2 less_imp_le_nat nat_neq_iff)
  ultimately show ?thesis
    by (simp add: LOGGER_MESSAGE_BUFFER_def)
qed

theorem truncation_boundary_witness:
  "(0::int) \<le> 6 \<and> (6::int) \<le> 7 \<and> 6 \<le> log_level (Logger program_ready)
   \<and> is_active (Logger program_ready)
   \<and> format (env program_ready) (replicate 2047 CHR ''a'') [] = Some (replicate 2047 CHR ''a'')
   \<and> logger_log 6 (Some ''main.c'') 3 (Some (replicate 2047 CHR ''a'')) [] program_ready =
       Inr (program_ready\<lparr>calls := calls program_ready @
              [Transform_call (clock (env program_ready)) 6 (Some ''main.c'') 3
                 (Some (replicate 2047 CHR ''a'')),
               Push_call None (Some (replicate 2047 CHR ''a''))],
              env := env program_ready\<rparr>)"
proof -
  let ?s = "replicate 2047 CHR ''a''"
  have a: "6 \<le> log_level (Logger program_ready)" "is_active (Logger program_ready)"
    "transform_function (Logger program_ready) = Some identity_transform"
    "output_function (Logger program_ready) = Some accepting_push"
    "output_object (Logger program_ready) = None"
    by (simp_all add: program_ready_Logger)
  have f: "format (env program_ready) ?s [] = Some ?s"
    by (simp add: program_ready_rest environment_example_def plain_format_def)
  have ne: "?s \<noteq> []" by simp
  have t: "identity_transform (clock (env program_ready)) 6 (Some ''main.c'') 3
      (Some (take (LOGGER_MESSAGE_BUFFER - 1) ?s)) (env program_ready)
      = Inr (Some (take (LOGGER_MESSAGE_BUFFER - 1) ?s), env program_ready)"
    by (simp add: identity_transform_def)
  have q: "accepting_push (output_object (Logger program_ready))
      (Some (take (LOGGER_MESSAGE_BUFFER - 1) ?s)) (env program_ready)
      = Inr (1, env program_ready)"
    by (simp add: accepting_push_def)
  from truncation_boundary [OF _ _ a(1,2) f ne a(3,4) t q]
  have "logger_log 6 (Some ''main.c'') 3 (Some ?s) [] program_ready =
       Inr (program_ready\<lparr>calls := calls program_ready @
              [Transform_call (clock (env program_ready)) 6 (Some ''main.c'') 3
                 (Some (take (LOGGER_MESSAGE_BUFFER - 1) ?s)),
               Push_call (output_object (Logger program_ready))
                 (Some (take (LOGGER_MESSAGE_BUFFER - 1) ?s))],
              env := env program_ready\<rparr>)"
    and "take (LOGGER_MESSAGE_BUFFER - 1) ?s = ?s"
    by simp_all
  with a f show ?thesis by simp
qed

text \<open>
  C5 as claimed fails at its boundary: of a message of exactly 2048 characters the
  transformer receives 2047.
\<close>

theorem truncation_boundary_counterexample:
  "length (replicate 2048 CHR ''a'') = LOGGER_MESSAGE_BUFFER
   \<and> format (env program_ready) (replicate 2048 CHR ''a'') [] = Some (replicate 2048 CHR ''a'')
   \<and> logger_log 6 (Some ''main.c'') 3 (Some (replicate 2048 CHR ''a'')) [] program_ready =
       Inr (program_ready\<lparr>calls :=
              [Transform_call 1633035745 6 (Some ''main.c'') 3 (Some (replicate 2047 CHR ''a'')),
               Push_call None (Some (replicate 2047 CHR ''a''))]\<rparr>)
   \<and> replicate 2047 CHR ''a'' \<noteq> replicate 2048 CHR ''a''"
  by (simp add: logger_log_def program_ready_Logger program_ready_rest environment_example_def
      plain_format_def vsnprintf_def LOGGER_MESSAGE_BUFFER_def identity_transform_def
      accepting_push_def)

section \<open>The tabular preset\<close>

text \<open>The characters of a number in decimal and of the names of the levels.\<close>

lemma dec_nat_chars: "dec_nat n \<noteq> [] \<and> set (dec_nat n) \<subseteq> set digit_chars"
proof (induction n rule: dec_nat.induct)
  case (1 n)
  show ?case
  proof (cases "n < 10")
    case True
    then have "digit_chars ! n \<in> set digit_chars"
      by (intro nth_mem) (simp add: digit_chars_def)
    with True show ?thesis by (subst (1 2) dec_nat.simps) simp
  next
    case False
    have "digit_chars ! (n mod 10) \<in> set digit_chars"
      by (intro nth_mem) (simp add: digit_chars_def)
    with False 1 show ?thesis by (subst (1 2) dec_nat.simps) simp
  qed
qed

lemma decimal_nonempty: "decimal i \<noteq> []"
  using dec_nat_chars [of "nat i"] by (simp add: decimal_def)

lemma digit_chars_subset: "set digit_chars \<subseteq> set ''-0123456789''"
  by (simp add: digit_chars_def)

lemma decimal_chars: "c \<in> set (decimal i) \<Longrightarrow> c \<in> set ''-0123456789''"
proof (cases "i < 0")
  case True
  assume "c \<in> set (decimal i)"
  with True have "c = CHR ''-'' \<or> c \<in> set (dec_nat (nat (- i)))"
    by (simp add: decimal_def)
  then show ?thesis
  proof
    assume "c = CHR ''-''"
    then show ?thesis by simp
  next
    assume "c \<in> set (dec_nat (nat (- i)))"
    with dec_nat_chars [of "nat (- i)"] digit_chars_subset show ?thesis by blast
  qed
next
  case False
  assume "c \<in> set (decimal i)"
  with False have "c \<in> set (dec_nat (nat i))"
    by (simp add: decimal_def)
  with dec_nat_chars [of "nat i"] digit_chars_subset show ?thesis by blast
qed

lemma csv_level_names:
  "\<forall>x \<in> set csv_log_level_mapping. newline \<notin> set x \<and> CHR ''%'' \<notin> set x"
  by (simp add: csv_log_level_mapping_def newline_def)

lemma csv_level_chars:
  assumes "0 \<le> lvl" "lvl \<le> 7" "c \<in> set (csv_log_level_mapping ! nat lvl)"
  shows "c \<noteq> newline \<and> c \<noteq> CHR ''%''"
proof -
  have "nat lvl < length csv_log_level_mapping"
    using assms(1,2) by (simp add: csv_log_level_mapping_def)
  then have "csv_log_level_mapping ! nat lvl \<in> set csv_log_level_mapping"
    by (rule nth_mem)
  with csv_level_names assms(3) show ?thesis by blast
qed

lemma butlast_take_snoc: "set (butlast (take k (xs @ [x]))) \<subseteq> set xs"
proof (cases "k \<le> length xs")
  case True
  then have "take k (xs @ [x]) = take k xs" by simp
  then show ?thesis
    by (metis in_set_butlastD in_set_takeD subsetI)
next
  case False
  then show ?thesis by simp
qed

text \<open>The record that the transformer of the tabular preset builds.\<close>

lemma csv_transform_valid:
  assumes "0 \<le> lvl" "lvl \<le> 7"
  shows "logger_factory_csv_transform t lvl (Some name) n (Some m) w =
    Inr (Some (take (LOGGER_MESSAGE_BUFFER - 1)
      (decimal t @ ('','' @ csv_log_level_mapping ! nat lvl @ '','' @ name @ '',''
          @ decimal n @ '','' @ m) @ [newline])), w)"
  using assms decimal_nonempty [of t]
  by (simp add: logger_factory_csv_transform_def vsnprintf_def LOGGER_EMERGENCY_def
      LOGGER_DEBUG_def)

lemma csv_record_head:
  "take (LOGGER_MESSAGE_BUFFER - 1) (decimal t @ rest) \<noteq> []
   \<and> hd (take (LOGGER_MESSAGE_BUFFER - 1) (decimal t @ rest)) \<in> set ''-0123456789''"
proof -
  obtain c cs where d: "decimal t = c # cs"
    using decimal_nonempty [of t] by (cases "decimal t") auto
  then have "c \<in> set (decimal t)" by simp
  then have "c \<in> set ''-0123456789''" by (rule decimal_chars)
  moreover have "take (LOGGER_MESSAGE_BUFFER - 1) (decimal t @ rest)
      = c # take (LOGGER_MESSAGE_BUFFER - 2) (cs @ rest)"
    using d by (simp add: LOGGER_MESSAGE_BUFFER_def take_Cons')
  ultimately show ?thesis by simp
qed

lemma csv_record_free_of:
  assumes "0 \<le> lvl" "lvl \<le> 7" "c = newline \<or> c = CHR ''%''"
    and "c \<notin> set name" "c \<notin> set m"
  shows "c \<notin> set (decimal t @ ('','' @ csv_log_level_mapping ! nat lvl @ '','' @ name @ '',''
          @ decimal n @ '','' @ m))"
proof -
  have "c \<notin> set ''-0123456789''"
    using assms(3) by (auto simp: newline_def)
  then have dec: "c \<notin> set (decimal i)" for i
    using decimal_chars [of c i] by blast
  have lev: "c \<notin> set (csv_log_level_mapping ! nat lvl)"
    using csv_level_chars [OF assms(1,2), of c] assms(3) by blast
  have comma: "c \<noteq> CHR '',''"
    using assms(3) by (auto simp: newline_def)
  show ?thesis using dec [of t] dec [of n] lev comma assms(4,5) by simp
qed

text \<open>\<^verbatim>\<open>fprintf\<close> with the record as its format.\<close>

lemma printf_no_args_plain: "CHR ''%'' \<notin> set f \<Longrightarrow> printf_no_args f = Some f"
  by (induction f) auto

lemma printf_no_args_head:
  "printf_no_args f = Some out \<Longrightarrow> f \<noteq> [] \<Longrightarrow> hd f \<noteq> CHR ''%'' \<Longrightarrow> out \<noteq> [] \<and> hd out = hd f"
  by (cases f) (auto split: if_splits)

lemma printf_no_args_newline:
  "printf_no_args f = Some out \<Longrightarrow> newline \<notin> set (butlast f) \<Longrightarrow> newline \<notin> set (butlast out)"
proof (induction f arbitrary: out rule: printf_no_args.induct)
  case 1
  then show ?case by simp
next
  case (2 c cs)
  show ?case
  proof (cases "c = CHR ''%''")
    case True
    with "2.prems"(1) obtain ds out' where cs: "cs = CHR ''%'' # ds"
      and out': "printf_no_args ds = Some out'" "out = CHR ''%'' # out'"
      by (auto split: list.splits if_splits)
    have "newline \<notin> set (butlast ds)"
      using "2.prems"(2) cs by (auto split: if_splits)
    with "2.IH"(1) [OF True cs _ out'(1)] have "newline \<notin> set (butlast out')" by simp
    then show ?thesis using out'(2) by (auto simp: newline_def)
  next
    case False
    with "2.prems"(1) obtain out' where out': "printf_no_args cs = Some out'" "out = c # out'"
      by auto
    show ?thesis
    proof (cases "cs = []")
      case True
      with out' show ?thesis by simp
    next
      case nonempty: False
      then have "c \<noteq> newline" "newline \<notin> set (butlast cs)"
        using "2.prems"(2) by auto
      with "2.IH"(2) [OF False out'(1)] out'(2) show ?thesis by auto
    qed
  qed
qed

text \<open>The lines of the file: the header comes first, and appending to plain lines.\<close>

lemma fold_line_no_newline:
  "newline \<notin> set xs \<Longrightarrow> foldl line_step (ls, cur) xs = (ls, cur @ xs)"
  by (induction xs arbitrary: cur) (auto simp: line_step_def)

lemma fold_line_prefix:
  "foldl line_step (ls @ ms, cur) xs
     = (ls @ fst (foldl line_step (ms, cur) xs), snd (foldl line_step (ms, cur) xs))"
  by (induction xs arbitrary: ms cur) (auto simp: line_step_def)

lemma csv_header_line: "csv_header = header_line @ [newline]"
  by (simp add: csv_header_def header_line_def)

lemma header_line_no_newline: "newline \<notin> set header_line"
  by (simp add: header_line_def newline_def)

lemma lines_of_header:
  "lines_of (csv_header @ d) = header_line # lines_of d"
proof -
  have "foldl line_step ([], []) (csv_header @ d) = foldl line_step ([header_line], []) d"
    by (simp add: csv_header_line fold_line_no_newline [OF header_line_no_newline]
        line_step_def)
  also have "\<dots> = (header_line # fst (foldl line_step ([], []) d),
                   snd (foldl line_step ([], []) d))"
    using fold_line_prefix [of "[header_line]" "[]" "[]" d] by simp
  finally show ?thesis by (simp add: lines_of_def split: prod.splits)
qed

lemma plain_line_not_header: "plain_line l \<Longrightarrow> l \<noteq> header_line"
  by (auto simp: plain_line_def header_line_def)

text \<open>
  One record of a line: a text that is not empty, starts neither with the first letter
  of the header nor with a line terminator, and holds a line terminator at its end
  only. Appending such a text to lines that are plain gives lines that are plain.
\<close>

lemma fold_line_record:
  assumes st: "plain_lines st"
    and out: "out \<noteq> []" "hd out \<noteq> CHR ''t''" "newline \<notin> set (butlast out)"
  shows "plain_lines (foldl line_step st out)"
proof -
  obtain ls cur where [simp]: "st = (ls, cur)" by (cases st)
  have split: "out = butlast out @ [last out]" using out(1) by simp
  have body: "foldl line_step (ls, cur) (butlast out) = (ls, cur @ butlast out)"
    using out(3) by (rule fold_line_no_newline)
  have grown: "plain_line (cur @ xs)" if "xs = [] \<or> hd xs \<noteq> CHR ''t''" for xs
    using st that by (cases cur) (auto simp: plain_line_def plain_lines_def)
  have hd_butlast: "butlast out = [] \<or> hd (butlast out) \<noteq> CHR ''t''"
    using out(1,2) by (cases out) auto
  have "foldl line_step (ls, cur) out = line_step (ls, cur @ butlast out) (last out)"
    by (subst split) (simp only: foldl_append body foldl.simps)
  then show ?thesis
    using st grown [OF hd_butlast] grown [of out] out(2) split
    by (auto simp: line_step_def plain_line_def plain_lines_def)
qed

lemma written_append_fopen:
  "written (File path) (evs @ Fopen path True # later) = written (File path) later"
  by (simp add: written_def record_event_def)

lemma contents_emit_same:
  "contents s (trace (emit (Fprintf s out) w)) = contents s (trace w) @ out"
  by (simp add: contents_def emit_def written_snoc record_event_def)

lemma contents_emit_stderr:
  "contents (File path) (trace (emit (Fprintf Stderr text) w)) = contents (File path) (trace w)"
  by (simp add: contents_def emit_def written_snoc record_event_def)

text \<open>
  One log call through the tabular preset. Either the record makes \<^verbatim>\<open>fprintf\<close>
  undefined, or the call returns and the file has received nothing or one record.
\<close>

lemma csv_log_step:
  assumes cfg: "csv_configured path p"
  shows "logger_log lvl fl n message args p = Inl Bad_stdio_argument
         \<or> (\<exists>p' out. logger_log lvl fl n message args p = Inr p'
               \<and> csv_configured path p' \<and> format (env p') = format (env p)
               \<and> contents (File path) (trace (env p'))
                   = contents (File path) (trace (env p)) @ out
               \<and> (out = [] \<or> (hd out \<noteq> CHR ''t''
                     \<and> (request_free_of newline (format (env p)) (t, lvl, fl, n, message, args)
                          \<longrightarrow> newline \<notin> set (butlast out)))))"
    and "request_free_of CHR ''%'' (format (env p)) (t, lvl, fl, n, message, args)
         \<Longrightarrow> \<exists>p'. logger_log lvl fl n message args p = Inr p'"
proof -
  let ?rq = "(t, lvl, fl, n, message, args)"
  let ?A = "logger_log lvl fl n message args p = Inl Bad_stdio_argument
         \<or> (\<exists>p' out. logger_log lvl fl n message args p = Inr p'
               \<and> csv_configured path p' \<and> format (env p') = format (env p)
               \<and> contents (File path) (trace (env p'))
                   = contents (File path) (trace (env p)) @ out
               \<and> (out = [] \<or> (hd out \<noteq> CHR ''t''
                     \<and> (request_free_of newline (format (env p)) ?rq
                          \<longrightarrow> newline \<notin> set (butlast out)))))"
  let ?B = "request_free_of CHR ''%'' (format (env p)) ?rq
         \<longrightarrow> (\<exists>p'. logger_log lvl fl n message args p = Inr p')"
  consider (invalid) "lvl < 0 \<or> 7 < lvl \<or> fl = None \<or> message = None"
    | (filtered) "0 \<le> lvl" "lvl \<le> 7" "fl \<noteq> None" "message \<noteq> None"
        "log_level (Logger p) < lvl \<or> is_active (Logger p) = False"
    | (empty) "0 \<le> lvl" "lvl \<le> 7" "fl \<noteq> None" "message \<noteq> None"
        "lvl \<le> log_level (Logger p)" "is_active (Logger p)"
        "format (env p) (the message) args = Some [] \<or> format (env p) (the message) args = None"
    | (deliver) s where "0 \<le> lvl" "lvl \<le> 7" "fl \<noteq> None" "message \<noteq> None"
        "lvl \<le> log_level (Logger p)" "is_active (Logger p)"
        "format (env p) (the message) args = Some s" "s \<noteq> []"
    by (cases "format (env p) (the message) args") force+
  then have "?A \<and> ?B"
  proof cases
    case invalid
    then have "logger_log lvl fl n message args p =
        Inr (p\<lparr>env := emit (Fprintf Stderr
               (''Could not log message - empty or outside log levels'' @ [newline])) (env p)\<rparr>)"
      by (rule logger_log_invalid)
    moreover have "format (emit e w) = format w" for e w by (simp add: emit_def)
    ultimately show ?thesis using cfg
      by (simp add: csv_configured_def contents_emit_stderr)
  next
    case filtered
    then obtain name fmt where "fl = Some name" "message = Some fmt" by auto
    with filtered have "logger_log lvl fl n message args p = Inr p"
      using logger_log_filtered [of lvl p name n fmt args] by simp
    with cfg show ?thesis by simp
  next
    case empty
    then obtain name fmt where fm: "fl = Some name" "message = Some fmt" by auto
    with empty have "logger_log lvl fl n message args p =
        Inr (p\<lparr>env := emit (Fprintf Stderr
               (''Could not log message - pre-formatting returned 0 bytes'' @ [newline]))
               (env p)\<rparr>)"
      using logger_log_empty [of lvl p fmt args name n] by simp
    moreover have "format (emit e w) = format w" for e w by (simp add: emit_def)
    ultimately show ?thesis using cfg
      by (simp add: csv_configured_def contents_emit_stderr)
  next
    case deliver
    obtain name fmt where fm: "fl = Some name" "message = Some fmt"
      using deliver(3,4) by auto
    define buf where "buf = take (LOGGER_MESSAGE_BUFFER - 1) s"
    define body where "body = decimal (clock (env p)) @ ('','' @ csv_log_level_mapping ! nat lvl
        @ '','' @ name @ '','' @ decimal n @ '','' @ buf)"
    define r where "r = take (LOGGER_MESSAGE_BUFFER - 1) (body @ [newline])"
    have s: "format (env p) fmt args = Some s" using deliver(7) fm by simp
    have tf: "transform_function (Logger p) = Some logger_factory_csv_transform"
      and pf: "output_function (Logger p) = Some logger_factory_console_output"
      and ob: "output_object (Logger p) = Some (Stream (File path))"
      using cfg by (simp_all add: csv_configured_def)
    have t: "logger_factory_csv_transform (clock (env p)) lvl (Some name) n
        (Some (take (LOGGER_MESSAGE_BUFFER - 1) s)) (env p) = Inr (Some r, env p)"
      using csv_transform_valid [OF deliver(1,2), of "clock (env p)" name n buf "env p"]
      by (simp add: r_def body_def buf_def)
    have "r \<noteq> [] \<and> hd r \<in> set ''-0123456789''"
      unfolding r_def body_def append_assoc by (rule csv_record_head)
    then have head: "r \<noteq> []" "hd r \<in> set ''-0123456789''" by blast+
    show ?thesis
    proof (cases "printf_no_args r")
      case None
      then have q: "logger_factory_console_output (output_object (Logger p)) (Some r) (env p)
          = Inl Bad_stdio_argument"
        by (simp add: ob logger_factory_console_output_def)
      have len: "\<not> int (length s) < 1" using deliver(8) by (cases s) auto
      have fault: "logger_log lvl fl n message args p = Inl Bad_stdio_argument"
        using deliver(1,2,5,6) fm s len tf pf t q
        by (simp add: logger_log_def vsnprintf_def)
      have "CHR ''%'' \<in> set r"
        using None printf_no_args_plain [of r] by auto
      then have "CHR ''%'' \<in> set body"
        using set_take_subset [of "LOGGER_MESSAGE_BUFFER - 1" "body @ [newline]"]
        by (auto simp: r_def newline_def)
      moreover have "CHR ''%'' \<notin> set body"
        if "CHR ''%'' \<notin> set name" "CHR ''%'' \<notin> set s"
      proof -
        from that(2) have "CHR ''%'' \<notin> set buf"
          unfolding buf_def by (meson in_set_takeD)
        with that(1) show ?thesis
          unfolding body_def using deliver(1,2) by (intro csv_record_free_of) simp_all
      qed
      ultimately have "\<not> request_free_of CHR ''%'' (format (env p)) ?rq"
        using fm s by (auto simp: request_free_of_def)
      with fault show ?thesis by simp
    next
      case (Some out)
      then have q: "logger_factory_console_output (output_object (Logger p)) (Some r) (env p)
          = Inr (1, emit (Fprintf (File path) out) (env p))"
        by (simp add: ob logger_factory_console_output_def)
      from logger_log_dispatch [OF deliver(1,2,5,6) s deliver(8) tf pf t q]
      have res: "logger_log lvl fl n message args p =
          Inr (p\<lparr>calls := calls p @
                    [Transform_call (clock (env p)) lvl (Some name) n
                       (Some (take (LOGGER_MESSAGE_BUFFER - 1) s)),
                     Push_call (output_object (Logger p)) (Some r)],
                  env := emit (Fprintf (File path) out) (env p)\<rparr>)"
        using fm by simp
      have "hd r \<noteq> CHR ''%''" "hd r \<noteq> CHR ''t''"
        using head(2) by auto
      with printf_no_args_head [OF Some head(1)] have out: "out \<noteq> []" "hd out \<noteq> CHR ''t''"
        by simp_all
      have one_line: "newline \<notin> set (butlast out)"
        if "newline \<notin> set name" "newline \<notin> set s"
      proof -
        from that(2) have "newline \<notin> set buf"
          unfolding buf_def by (meson in_set_takeD)
        with that(1) have "newline \<notin> set body"
          unfolding body_def using deliver(1,2) by (intro csv_record_free_of) simp_all
        then have "newline \<notin> set (butlast r)"
          unfolding r_def using butlast_take_snoc [of "LOGGER_MESSAGE_BUFFER - 1" body newline]
          by blast
        with Some show ?thesis by (rule printf_no_args_newline)
      qed
      have "request_free_of newline (format (env p)) ?rq \<longrightarrow> newline \<notin> set (butlast out)"
        using one_line fm s by (simp add: request_free_of_def)
      moreover have "format (emit e w) = format w" for e w by (simp add: emit_def)
      ultimately show ?thesis
        using res cfg out by (simp add: csv_configured_def contents_emit_same)
    qed
  qed
  then show ?A and "request_free_of CHR ''%'' (format (env p)) ?rq
         \<Longrightarrow> \<exists>p'. logger_log lvl fl n message args p = Inr p'"
    by blast+
qed

text \<open>A sequence of log calls through the tabular preset that returns.\<close>

lemma csv_log_all:
  assumes "csv_configured path p" "logger_log_all rs p = Inr p''"
  shows "\<exists>d. contents (File path) (trace (env p'')) = contents (File path) (trace (env p)) @ d
           \<and> (list_all (request_free_of newline (format (env p))) rs
                \<longrightarrow> (\<forall>st. plain_lines st \<longrightarrow> plain_lines (foldl line_step st d)))"
  using assms
proof (induction rs arbitrary: p)
  case Nil
  then show ?case by simp
next
  case (Cons rq rs)
  obtain t lvl fl n message args where rq: "rq = (t, lvl, fl, n, message, args)"
    by (cases rq) auto
  let ?p0 = "p\<lparr>env := (env p)\<lparr>clock := t\<rparr>\<rparr>"
  have cfg0: "csv_configured path ?p0"
    using Cons.prems(1) by (simp add: csv_configured_def)
  have same: "format (env ?p0) = format (env p)" "trace (env ?p0) = trace (env p)"
    by simp_all
  from Cons.prems(2) obtain p1 where p1: "logger_log lvl fl n message args ?p0 = Inr p1"
    and run: "logger_log_all rs p1 = Inr p''"
    by (auto simp: rq split: sum.splits)
  from csv_log_step(1) [OF cfg0, of lvl fl n message args t] p1
  obtain out where cfg1: "csv_configured path p1"
    and fm1: "format (env p1) = format (env p)"
    and c1: "contents (File path) (trace (env p1)) = contents (File path) (trace (env p)) @ out"
    and o1: "out = [] \<or> (hd out \<noteq> CHR ''t''
               \<and> (request_free_of newline (format (env p)) rq
                     \<longrightarrow> newline \<notin> set (butlast out)))"
    by (auto simp: rq)
  from Cons.IH [OF cfg1 run]
  obtain d where c2: "contents (File path) (trace (env p'')) =
      contents (File path) (trace (env p1)) @ d"
    and d: "list_all (request_free_of newline (format (env p))) rs
            \<longrightarrow> (\<forall>st. plain_lines st \<longrightarrow> plain_lines (foldl line_step st d))"
    using fm1 by auto
  have "plain_lines (foldl line_step st (out @ d))"
    if all: "list_all (request_free_of newline (format (env p))) (rq # rs)"
      and st: "plain_lines st" for st
  proof -
    have "plain_lines (foldl line_step st out)"
    proof (cases "out = []")
      case True
      with st show ?thesis by simp
    next
      case False
      with o1 all have "hd out \<noteq> CHR ''t''" "newline \<notin> set (butlast out)" by auto
      with st False show ?thesis by (intro fold_line_record)
    qed
    moreover have "plain_lines (foldl line_step st' d)" if "plain_lines st'" for st'
      using d all that by (cases st') simp
    ultimately show ?thesis unfolding foldl_append by blast
  qed
  with c1 c2 show ?case by auto
qed

lemma csv_log_all_returns:
  assumes "csv_configured path p"
    and "list_all (request_free_of CHR ''%'' (format (env p))) rs"
  shows "\<exists>p''. logger_log_all rs p = Inr p''"
  using assms
proof (induction rs arbitrary: p)
  case Nil
  then show ?case by simp
next
  case (Cons rq rs)
  obtain t lvl fl n message args where rq: "rq = (t, lvl, fl, n, message, args)"
    by (cases rq) auto
  let ?p0 = "p\<lparr>env := (env p)\<lparr>clock := t\<rparr>\<rparr>"
  have cfg0: "csv_configured path ?p0"
    using Cons.prems(1) by (simp add: csv_configured_def)
  have free: "request_free_of CHR ''%'' (format (env ?p0)) (t, lvl, fl, n, message, args)"
    using Cons.prems(2) by (simp add: rq)
  from csv_log_step(2) [OF cfg0 free]
  obtain p1 where p1: "logger_log lvl fl n message args ?p0 = Inr p1" by blast
  with csv_log_step(1) [OF cfg0, of lvl fl n message args t]
  have "csv_configured path p1" "format (env p1) = format (env p)" by auto
  with Cons.IH [of p1] Cons.prems(2) obtain p'' where "logger_log_all rs p1 = Inr p''"
    by auto
  with p1 show ?case by (auto simp: rq)
qed

lemma factory_file_result:
  assumes "logger_factory_file lvl file_path p = (r, p1)"
  shows "(r \<le> 0 \<and> (\<exists>new. trace (env p1) = trace (env p) @ new
                      \<and> filter is_header_write new = []))
         \<or> (0 < r \<and> (\<exists>path pre. file_path = Some path
              \<and> logger_factory_file_file p1 = Some (File path)
              \<and> output_function (Logger p1) = Some logger_factory_console_output
              \<and> output_object (Logger p1) = Some (Stream (File path))
              \<and> trace (env p1) = trace (env p) @ pre @ [Fopen path True, Atexit True]
              \<and> filter is_header_write pre = []))"
proof (cases "file_path = None \<or> lvl < LOGGER_EMERGENCY \<or> lvl > LOGGER_DEBUG")
  case True
  with assms show ?thesis by (auto simp: logger_factory_file_def)
next
  case False
  then obtain path where path: "file_path = Some path" by auto
  define w0 where "w0 = (case logger_factory_file_file p of
                   None \<Rightarrow> env p
                 | Some old \<Rightarrow> emit (Fclose old) (emit (Fflush old) (env p)))"
  obtain pre where pre: "trace w0 = trace (env p) @ pre" "filter is_header_write pre = []"
    "can_open w0 = can_open (env p)" "atexit_ok w0 = atexit_ok (env p)"
    by (cases "logger_factory_file_file p") (auto simp: w0_def emit_def is_header_write_def)
  have range: "0 \<le> lvl" "lvl \<le> 7"
    using False by (auto simp: LOGGER_EMERGENCY_def LOGGER_DEBUG_def)
  show ?thesis
  proof (cases "can_open w0 path")
    case no: False
    then have "logger_factory_file lvl file_path p =
        (- 2, p\<lparr>logger_factory_file_file := None,
                 env := emit (Perror ''Could not open File for factory setup'')
                          (emit (Fopen path False) w0)\<rparr>)"
      using False path by (simp add: logger_factory_file_def fopen_w_def w0_def)
    with assms pre path show ?thesis by (auto simp: emit_def is_header_write_def)
  next
    case yes: True
    show ?thesis
    proof (cases "atexit_ok w0")
      case False
      then have "logger_factory_file lvl file_path p =
          (- 3, p\<lparr>logger_factory_file_file := Some (File path),
                   env := emit (Fclose (File path))
                            (emit (Fprintf Stderr
                                     (''Could not setup atexit handler'' @ [newline]))
                               (emit (Atexit False) (emit (Fopen path True) w0)))\<rparr>)"
        using \<open>\<not> (file_path = None \<or> lvl < LOGGER_EMERGENCY \<or> lvl > LOGGER_DEBUG)\<close> path yes
        by (simp add: logger_factory_file_def fopen_w_def w0_def emit_def)
      with assms pre path show ?thesis
        by (auto simp: emit_def is_header_write_def csv_header_def)
    next
      case True
      then have "logger_factory_file lvl file_path p =
          (1, p\<lparr>Logger := \<lparr>log_level = lvl, output_object = Some (Stream (File path)),
                    output_function = Some logger_factory_console_output,
                    transform_function = Some logger_factory_console_transform,
                    is_active = True\<rparr>,
                 logger_factory_file_file := Some (File path),
                 env := emit (Atexit True) (emit (Fopen path True) w0)\<rparr>)"
        using \<open>\<not> (file_path = None \<or> lvl < LOGGER_EMERGENCY \<or> lvl > LOGGER_DEBUG)\<close> path yes
          range
        by (simp add: logger_factory_file_def fopen_w_def w0_def emit_def
            logger_setup_context_def)
      with assms pre path show ?thesis by (auto simp: emit_def)
    qed
  qed
qed

text \<open>
  C9, as the code has it. \<^verbatim>\<open>logger_factory_csv\<close> always returns. When it succeeds (a
  positive status), the events it added contain exactly one write of the header
  record, to the stream of the file it opened, and that file then holds the header and
  nothing else. After any sequence of log calls that follows and returns, the file
  holds the header and after it what the calls wrote; when no file name and no expanded
  message of these calls holds a line break, exactly one line of the file is the header
  line. The sequence does return when no file name and no expanded message holds a
  percent sign. When \<^verbatim>\<open>logger_factory_csv\<close> fails, the events it added contain no write
  of the header.
\<close>

theorem csv_header_written_once:
  "\<exists>r p' new.
      logger_factory_csv lvl file_path p = Inr (r, p')
      \<and> trace (env p') = trace (env p) @ new
      \<and> (if 0 < r
         then (\<exists>path. file_path = Some path
                 \<and> filter is_header_write new = [Fprintf (File path) csv_header]
                 \<and> contents (File path) (trace (env p')) = csv_header
                 \<and> (\<forall>rs p''. logger_log_all rs p' = Inr p'' \<longrightarrow>
                        (\<exists>d. contents (File path) (trace (env p'')) = csv_header @ d)
                        \<and> (list_all (request_free_of newline (format (env p'))) rs \<longrightarrow>
                             count_list (lines_of (contents (File path) (trace (env p''))))
                               header_line = 1))
                 \<and> (\<forall>rs. list_all (request_free_of CHR ''%'' (format (env p'))) rs \<longrightarrow>
                        (\<exists>p''. logger_log_all rs p' = Inr p'')))
         else filter is_header_write new = [])"
proof -
  obtain r p1 where f: "logger_factory_file lvl file_path p = (r, p1)"
    by (cases "logger_factory_file lvl file_path p") auto
  from factory_file_result [OF f] show ?thesis
  proof
    assume "r \<le> 0 \<and> (\<exists>new. trace (env p1) = trace (env p) @ new
                      \<and> filter is_header_write new = [])"
    with f show ?thesis by (auto simp: logger_factory_csv_def)
  next
    assume "0 < r \<and> (\<exists>path pre. file_path = Some path
              \<and> logger_factory_file_file p1 = Some (File path)
              \<and> output_function (Logger p1) = Some logger_factory_console_output
              \<and> output_object (Logger p1) = Some (Stream (File path))
              \<and> trace (env p1) = trace (env p) @ pre @ [Fopen path True, Atexit True]
              \<and> filter is_header_write pre = [])"
    then obtain path pre where ok: "0 < r" "file_path = Some path"
      "logger_factory_file_file p1 = Some (File path)"
      "output_function (Logger p1) = Some logger_factory_console_output"
      "output_object (Logger p1) = Some (Stream (File path))"
      "trace (env p1) = trace (env p) @ pre @ [Fopen path True, Atexit True]"
      "filter is_header_write pre = []"
      by blast
    define p' where "p' = p1\<lparr>Logger := (Logger p1)\<lparr>transform_function :=
        Some logger_factory_csv_transform\<rparr>,
        env := emit (Fprintf (File path) csv_header) (env p1)\<rparr>"
    have res: "logger_factory_csv lvl file_path p = Inr (r, p')"
      using f ok by (simp add: logger_factory_csv_def logger_set_transform_def p'_def)
    have tr: "trace (env p') =
        trace (env p) @ (pre @ [Fopen path True, Atexit True, Fprintf (File path) csv_header])"
      using ok(6) by (simp add: p'_def emit_def)
    have hw: "filter is_header_write
        (pre @ [Fopen path True, Atexit True, Fprintf (File path) csv_header])
        = [Fprintf (File path) csv_header]"
      using ok(7) by (simp add: is_header_write_def)
    have wr: "contents (File path) (trace (env p')) = csv_header"
    proof -
      have "trace (env p') = (trace (env p) @ pre) @ Fopen path True #
          [Atexit True, Fprintf (File path) csv_header]"
        using tr by simp
      then have "written (File path) (trace (env p'))
          = written (File path) [Atexit True, Fprintf (File path) csv_header]"
        by (simp only: written_append_fopen)
      then show ?thesis by (simp add: contents_def written_def record_event_def)
    qed
    have cfg: "csv_configured path p'"
      using ok by (simp add: csv_configured_def p'_def)
    have later: "(\<exists>d. contents (File path) (trace (env p'')) = csv_header @ d)
        \<and> (list_all (request_free_of newline (format (env p'))) rs \<longrightarrow>
              count_list (lines_of (contents (File path) (trace (env p'')))) header_line = 1)"
      if run: "logger_log_all rs p' = Inr p''" for rs p''
    proof -
      from csv_log_all [OF cfg run] wr
      obtain d where d: "contents (File path) (trace (env p'')) = csv_header @ d"
        and plain: "list_all (request_free_of newline (format (env p'))) rs
            \<longrightarrow> (\<forall>st. plain_lines st \<longrightarrow> plain_lines (foldl line_step st d))"
        by auto
      have "count_list (lines_of (csv_header @ d)) header_line = 1"
        if "list_all (request_free_of newline (format (env p'))) rs"
      proof -
        have "plain_lines ([], [])" by (simp add: plain_lines_def plain_line_def)
        with plain that have "plain_lines (foldl line_step ([], []) d)" by blast
        moreover obtain ls cur where "foldl line_step ([], []) d = (ls, cur)"
          by (cases "foldl line_step ([], []) d")
        ultimately have "\<forall>l \<in> set (lines_of d). plain_line l"
          by (auto simp: plain_lines_def lines_of_def)
        then have "\<forall>l \<in> set (lines_of d). l \<noteq> header_line"
          using plain_line_not_header by blast
        then have "header_line \<notin> set (lines_of d)" by blast
        then have "count_list (lines_of d) header_line = 0"
          by (simp add: count_list_0_iff)
        then show ?thesis by (simp add: lines_of_header)
      qed
      with d show ?thesis by simp
    qed
    have returns: "\<exists>p''. logger_log_all rs p' = Inr p''"
      if "list_all (request_free_of CHR ''%'' (format (env p'))) rs" for rs
      using cfg that by (rule csv_log_all_returns)
    from res tr hw wr later returns ok(1,2) show ?thesis by (simp del: append_assoc)
  qed
qed

lemma console_output_defined:
  "printf_no_args m = Some out \<Longrightarrow>
   logger_factory_console_output (Some (Stream s)) (Some m) w = Inr (1, emit (Fprintf s out) w)"
  by (simp add: logger_factory_console_output_def)

lemma program_csv_reached:
  "logger_factory_csv 7 (Some ''log.csv'') program_start = Inr (1, program_csv)"
  by (simp add: logger_factory_csv_def logger_factory_file_def program_start_def
      environment_example_def fopen_w_def emit_def logger_setup_context_def
      logger_set_transform_def LOGGER_EMERGENCY_def LOGGER_DEBUG_def program_csv_def
      Logger_zero_def)

theorem csv_header_written_once_witness:
  "logger_factory_csv 7 (Some ''log.csv'') program_start = Inr (1, program_csv)
   \<and> contents (File ''log.csv'') (trace (env program_csv)) = csv_header
   \<and> (\<exists>p''. logger_log_all [(1633035745, 6, Some ''main.c'', 3, Some ''a'', []),
                             (1633035746, 7, Some ''main.c'', 4, Some ''b'', [])] program_csv
              = Inr p''
          \<and> (\<exists>d. contents (File ''log.csv'') (trace (env p'')) = csv_header @ d)
          \<and> count_list (lines_of (contents (File ''log.csv'') (trace (env p'')))) header_line
              = 1)"
proof -
  let ?rs = "[(1633035745, 6, Some ''main.c'', 3, Some ''a'', []),
              (1633035746, 7, Some ''main.c'', 4, Some ''b'', [])] :: log_request list"
  have fm: "format (env program_csv) = plain_format"
    by (simp add: program_csv_def environment_example_def)
  have free: "list_all (request_free_of c (format (env program_csv))) ?rs"
    if "c = newline \<or> c = CHR ''%''" for c
    using that by (auto simp: fm request_free_of_def plain_format_def newline_def)
  from csv_header_written_once [of 7 "Some ''log.csv''" program_start]
  obtain r p' new where res: "logger_factory_csv 7 (Some ''log.csv'') program_start = Inr (r, p')"
    and rest: "if 0 < r
         then (\<exists>path. Some ''log.csv'' = Some path
                 \<and> filter is_header_write new = [Fprintf (File path) csv_header]
                 \<and> contents (File path) (trace (env p')) = csv_header
                 \<and> (\<forall>rs p''. logger_log_all rs p' = Inr p'' \<longrightarrow>
                        (\<exists>d. contents (File path) (trace (env p'')) = csv_header @ d)
                        \<and> (list_all (request_free_of newline (format (env p'))) rs \<longrightarrow>
                             count_list (lines_of (contents (File path) (trace (env p''))))
                               header_line = 1))
                 \<and> (\<forall>rs. list_all (request_free_of CHR ''%'' (format (env p'))) rs \<longrightarrow>
                        (\<exists>p''. logger_log_all rs p' = Inr p'')))
         else filter is_header_write new = []"
    by blast
  from res have r: "r = 1" "p' = program_csv" by (simp_all add: program_csv_reached)
  with rest have hdr: "contents (File ''log.csv'') (trace (env program_csv)) = csv_header"
    and later: "\<And>rs p''. logger_log_all rs program_csv = Inr p'' \<Longrightarrow>
                  (\<exists>d. contents (File ''log.csv'') (trace (env p'')) = csv_header @ d)
                  \<and> (list_all (request_free_of newline (format (env program_csv))) rs \<longrightarrow>
                       count_list (lines_of (contents (File ''log.csv'') (trace (env p''))))
                         header_line = 1)"
    and returns: "\<And>rs. list_all (request_free_of CHR ''%'' (format (env program_csv))) rs \<Longrightarrow>
                    \<exists>p''. logger_log_all rs program_csv = Inr p''"
    by auto
  from returns [OF free] obtain p'' where run: "logger_log_all ?rs program_csv = Inr p''"
    by auto
  from later [OF run] free [of newline]
  have "(\<exists>d. contents (File ''log.csv'') (trace (env p'')) = csv_header @ d)
      \<and> count_list (lines_of (contents (File ''log.csv'') (trace (env p'')))) header_line = 1"
    by simp
  with run hdr program_csv_reached show ?thesis by blast
qed

text \<open>
  C9 as claimed fails for a message that holds a line break: after the tabular preset
  has been set up, one log call with the message \<^verbatim>\<open>"x\ntimestamp,priority,filename,linenumber,message"\<close>
  leaves a file in which two lines are the header line.
\<close>

theorem csv_header_counterexample:
  "logger_factory_csv 7 (Some ''log.csv'') program_start = Inr (1, program_csv)
   \<and> logger_log 6 (Some ''main.c'') 3 (Some (''x'' @ [newline] @ header_line)) [] program_csv =
       Inr (program_csv\<lparr>calls :=
              [Transform_call 1633035745 6 (Some ''main.c'') 3
                 (Some (''x'' @ [newline] @ header_line)),
               Push_call (Some (Stream (File ''log.csv'')))
                 (Some (''1633035745,info,main.c,3,x'' @ [newline] @ csv_header))],
              env := emit (Fprintf (File ''log.csv'')
                             (''1633035745,info,main.c,3,x'' @ [newline] @ csv_header))
                       (env program_csv)\<rparr>)
   \<and> contents (File ''log.csv'')
        (trace (emit (Fprintf (File ''log.csv'')
                        (''1633035745,info,main.c,3,x'' @ [newline] @ csv_header))
                  (env program_csv)))
       = csv_header @ ''1633035745,info,main.c,3,x'' @ [newline] @ csv_header
   \<and> count_list
        (lines_of (csv_header @ ''1633035745,info,main.c,3,x'' @ [newline] @ csv_header))
        header_line = 2"
proof -
  let ?m = "''x'' @ [newline] @ header_line"
  let ?r = "''1633035745,info,main.c,3,x'' @ [newline] @ csv_header"
  have L: "log_level (Logger program_csv) = 7" "is_active (Logger program_csv)"
    "transform_function (Logger program_csv) = Some logger_factory_csv_transform"
    "output_function (Logger program_csv) = Some logger_factory_console_output"
    "output_object (Logger program_csv) = Some (Stream (File ''log.csv''))"
    "clock (env program_csv) = 1633035745" "calls program_csv = []"
    by (simp_all add: program_csv_def environment_example_def)
  have fm: "format (env program_csv) ?m [] = Some ?m"
    by (simp add: program_csv_def environment_example_def plain_format_def header_line_def
        newline_def)
  have short: "take (LOGGER_MESSAGE_BUFFER - 1) ?m = ?m"
    by (simp add: LOGGER_MESSAGE_BUFFER_def header_line_def)
  have short': "take (LOGGER_MESSAGE_BUFFER - Suc 0) (CHR ''x'' # newline # header_line)
      = CHR ''x'' # newline # header_line"
    by (simp add: LOGGER_MESSAGE_BUFFER_def header_line_def)
  have d: "decimal 1633035745 = ''1633035745''" "decimal 3 = ''3''"
    by (simp_all add: decimal_def dec_nat.simps digit_chars_def)
  have t: "logger_factory_csv_transform (clock (env program_csv)) 6 (Some ''main.c'') 3
      (Some (take (LOGGER_MESSAGE_BUFFER - 1) ?m)) (env program_csv)
      = Inr (Some ?r, env program_csv)"
    unfolding short L(6)
    by (simp add: csv_transform_valid d csv_log_level_mapping_def LOGGER_MESSAGE_BUFFER_def
        csv_header_def header_line_def)
  have pr: "printf_no_args ?r = Some ?r"
    by (rule printf_no_args_plain) (simp add: csv_header_def newline_def)
  have q: "logger_factory_console_output (output_object (Logger program_csv)) (Some ?r)
      (env program_csv)
      = Inr (1, emit (Fprintf (File ''log.csv'') ?r) (env program_csv))"
    unfolding L(5) using pr by (rule console_output_defined)
  have ne: "?m \<noteq> []" by simp
  from logger_log_dispatch [OF _ _ _ L(2) fm ne L(3,4) t q]
  have run: "logger_log 6 (Some ''main.c'') 3 (Some ?m) [] program_csv =
       Inr (program_csv\<lparr>calls :=
              [Transform_call 1633035745 6 (Some ''main.c'') 3 (Some ?m),
               Push_call (Some (Stream (File ''log.csv''))) (Some ?r)],
              env := emit (Fprintf (File ''log.csv'') ?r) (env program_csv)\<rparr>)"
    by (simp add: L short')
  have c0: "contents (File ''log.csv'') (trace (env program_csv)) = csv_header"
    by (simp add: program_csv_def contents_def written_def record_event_def)
  have c: "contents (File ''log.csv'') (trace (emit (Fprintf (File ''log.csv'') ?r)
      (env program_csv))) = csv_header @ ?r"
    by (simp only: contents_emit_same c0)
  have "lines_of (csv_header @ ?r)
      = [header_line, ''1633035745,info,main.c,3,x'', header_line, []]"
    by (simp add: lines_of_def line_step_def csv_header_def header_line_def newline_def)
  then have n: "count_list (lines_of (csv_header @ ?r)) header_line = 2"
    by (simp add: header_line_def)
  from program_csv_reached run c n show ?thesis by simp
qed

end
